theory Spec2Isabelle
  imports Main "HOL-Library.Sublist"
begin

section \<open>Strings\<close>

text \<open>
  A JavaScript string is a sequence of UTF-16 code units. The model is \<^typ>\<open>string\<close>,
  one \<^typ>\<open>char\<close> per code unit, so it covers the strings whose code units are below
  256 (ASCII and the Latin-1 supplement). On these, \<^verbatim>\<open>toLowerCase\<close> maps
  \<^verbatim>\<open>A-Z\<close> and the capitals U+00C0..U+00DE (U+00D7, the multiplication sign, apart)
  to the code unit 32 above, and leaves everything else alone.
\<close>

definition lowerChar :: "char \<Rightarrow> char" where
  "lowerChar c =
     (let n = (of_char c :: nat)
      in if (65 \<le> n \<and> n \<le> 90) \<or> (192 \<le> n \<and> n \<le> 222 \<and> n \<noteq> 215)
         then char_of (n + 32) else c)"

definition toLowerCase :: "string \<Rightarrow> string" where
  "toLowerCase s = map lowerChar s"

text \<open>\<^verbatim>\<open>s.startsWith(p)\<close> and \<^verbatim>\<open>s.includes(p)\<close>, by recursion on the subject.\<close>

fun startsWith :: "string \<Rightarrow> string \<Rightarrow> bool" where
  "startsWith s [] = True"
| "startsWith [] (p # ps) = False"
| "startsWith (c # cs) (p # ps) = (c = p \<and> startsWith cs ps)"

fun includes_str :: "string \<Rightarrow> string \<Rightarrow> bool" where
  "includes_str [] p = startsWith [] p"
| "includes_str (c # cs) p = (startsWith (c # cs) p \<or> includes_str cs p)"

text \<open>
  \<^verbatim>\<open>s.trim()\<close> removes leading and trailing white space and line terminators; below 256
  these are TAB, LF, VT, FF, CR, SP and NBSP.
\<close>

definition isWhiteSpace :: "char \<Rightarrow> bool" where
  "isWhiteSpace c = ((of_char c :: nat) \<in> {9, 10, 11, 12, 13, 32, 160})"

definition trim :: "string \<Rightarrow> string" where
  "trim s = rev (dropWhile isWhiteSpace (rev (dropWhile isWhiteSpace s)))"

section \<open>The media classifier (Chat.tsx, isVideoUrl and the render branch)\<close>

definition videoExtensions :: "string list" where
  "videoExtensions =
     [''.mp4'', ''.webm'', ''.ogg'', ''.avi'', ''.mov'', ''.wmv'', ''.flv'', ''.mkv'',
      ''.m4v'', ''.3gp'']"

definition videoHosts :: "string list" where
  "videoHosts = [''youtube.com'', ''youtu.be'', ''vimeo.com'', ''twitch.tv'', ''stream'', ''video'']"

text \<open>
  \<^verbatim>\<open>isVideoUrl\<close>. Its \<^verbatim>\<open>try\<close> block only calls string methods on a string, which
  raise nothing, so the \<^verbatim>\<open>catch\<close> branch has no input that reaches it.
\<close>

definition isVideoUrl :: "string \<Rightarrow> bool" where
  "isVideoUrl url =
     (let lowerUrl = toLowerCase url
      in if startsWith lowerUrl ''rtsp://'' then True
         else
           (let hasVideoExtension = list_ex (\<lambda>ext. includes_str lowerUrl ext) videoExtensions;
                hasVideoKeywords =
                  (includes_str lowerUrl ''video'' \<or> includes_str lowerUrl ''stream'' \<or>
                   includes_str lowerUrl ''live'' \<or> includes_str lowerUrl ''cam'' \<or>
                   includes_str lowerUrl ''feed'' \<or> includes_str lowerUrl ''rtsp'');
                hasVideoHost = list_ex (\<lambda>host. includes_str lowerUrl host) videoHosts
            in hasVideoExtension \<or> hasVideoKeywords \<or> hasVideoHost))"

text \<open>
  The three ways a candidate is rendered: the \<^verbatim>\<open>RTSPPlayer\<close> panel, the
  \<^verbatim>\<open>video\<close> element, or the plain link.
\<close>

datatype classification = RtspStream | VideoFile | NonMedia

definition classify :: "string \<Rightarrow> classification" where
  "classify url =
     (if isVideoUrl url
      then (if startsWith (toLowerCase url) ''rtsp://'' then RtspStream else VideoFile)
      else NonMedia)"

text \<open>
  The wording of the specification, "beginning with \<^verbatim>\<open>rtsp://\<close> in any letter case":
  the URL has at least seven code units, and each of the first seven is the corresponding
  one of \<^verbatim>\<open>rtsp://\<close> or its capital.
\<close>

definition upperAscii :: "char \<Rightarrow> char" where
  "upperAscii c =
     (let n = (of_char c :: nat) in if 97 \<le> n \<and> n \<le> 122 then char_of (n - 32) else c)"

fun beginsAnyCase :: "string \<Rightarrow> string \<Rightarrow> bool" where
  "beginsAnyCase s [] = True"
| "beginsAnyCase [] (p # ps) = False"
| "beginsAnyCase (c # cs) (p # ps) = ((c = p \<or> c = upperAscii p) \<and> beginsAnyCase cs ps)"

section \<open>JavaScript values\<close>

text \<open>
  The auxiliary payload is typed \<^verbatim>\<open>Record<string, unknown>\<close>, and TypeScript's types are
  erased at run time, so the model is of untyped values: what \<^verbatim>\<open>JSON.parse\<close> produces,
  and in addition objects with an accessor property whose getter raises (the one way
  a property read on such a value can fail). An object is the list of its own enumerable
  properties in enumeration order. Numbers are the integers of magnitude at most
  \<open>2\<^sup>5\<^sup>3\<close>, which a JavaScript number holds exactly and prints as the decimal
  numeral; the program only tests a number for truth and converts it to text.
\<close>

datatype js_error =
    Error string
  | SyntaxError
  | TypeError
  | RangeError
  | Thrown string

datatype 'v property = Data 'v | Accessor js_error

datatype jsval =
    JUndefined
  | JNull
  | JBool bool
  | JNum int
  | JStr string
  | JArr "jsval list"
  | JObj "(string \<times> jsval property) list"

text \<open>An object literal with data properties only.\<close>

definition obj :: "(string \<times> jsval) list \<Rightarrow> jsval" where
  "obj fields = JObj (map (\<lambda>(k, v). (k, Data v)) fields)"

text \<open>Truthiness, \<^verbatim>\<open>typeof v === 'string'\<close>, \<^verbatim>\<open>Array.isArray(v)\<close>, and the test
  \<^verbatim>\<open>typeof v === 'object' && v !== null && !Array.isArray(v)\<close>.\<close>

fun truthy :: "jsval \<Rightarrow> bool" where
  "truthy JUndefined = False"
| "truthy JNull = False"
| "truthy (JBool b) = b"
| "truthy (JNum n) = (n \<noteq> 0)"
| "truthy (JStr s) = (s \<noteq> [])"
| "truthy (JArr xs) = True"
| "truthy (JObj ps) = True"

fun isString :: "jsval \<Rightarrow> bool" where
  "isString (JStr s) = True"
| "isString v = False"

fun isArray :: "jsval \<Rightarrow> bool" where
  "isArray (JArr xs) = True"
| "isArray v = False"

fun isPlainObject :: "jsval \<Rightarrow> bool" where
  "isPlainObject (JObj ps) = True"
| "isPlainObject v = False"

fun elements :: "jsval \<Rightarrow> jsval list" where
  "elements (JArr xs) = xs"
| "elements v = []"

text \<open>
  Reading a property, \<^verbatim>\<open>v.k\<close> or \<^verbatim>\<open>v[k]\<close>, for the keys this program reads
  (\<^verbatim>\<open>url\<close>, \<^verbatim>\<open>urls\<close>, the media fields, \<^verbatim>\<open>detail\<close>, \<^verbatim>\<open>response\<close>,
  \<^verbatim>\<open>tool_data\<close>): none of them is defined on a built-in prototype, so on a string, a
  number, a boolean or an array the read gives \<^verbatim>\<open>undefined\<close>. On \<^verbatim>\<open>null\<close> and
  \<^verbatim>\<open>undefined\<close> it raises a TypeError.
\<close>

fun readProperty :: "jsval property \<Rightarrow> js_error + jsval" where
  "readProperty (Data v) = Inr v"
| "readProperty (Accessor e) = Inl e"

fun getProp :: "jsval \<Rightarrow> string \<Rightarrow> js_error + jsval" where
  "getProp JUndefined k = Inl TypeError"
| "getProp JNull k = Inl TypeError"
| "getProp (JObj ps) k =
     (case map_of ps k of None \<Rightarrow> Inr JUndefined | Some p \<Rightarrow> readProperty p)"
| "getProp v k = Inr JUndefined"

text \<open>\<^verbatim>\<open>Object.values(v)\<close>: the own enumerable property values, read in order.\<close>

fun readAll :: "jsval property list \<Rightarrow> js_error + jsval list" where
  "readAll [] = Inr []"
| "readAll (p # ps) =
     (case readProperty p of
        Inl e \<Rightarrow> Inl e
      | Inr v \<Rightarrow> (case readAll ps of Inl e \<Rightarrow> Inl e | Inr vs \<Rightarrow> Inr (v # vs)))"

fun objectValues :: "jsval \<Rightarrow> js_error + jsval list" where
  "objectValues JUndefined = Inl TypeError"
| "objectValues JNull = Inl TypeError"
| "objectValues (JObj ps) = readAll (map snd ps)"
| "objectValues (JArr xs) = Inr xs"
| "objectValues (JStr s) = Inr (map (\<lambda>c. JStr [c]) s)"
| "objectValues v = Inr []"

text \<open>
  Number to text, for a status code or an integer value of magnitude at most
  \<open>2\<^sup>5\<^sup>3\<close> (a larger JavaScript number is rounded, and from \<open>10\<^sup>2\<^sup>1\<close> it is
  printed with an exponent, which \<open>showInt\<close> does not follow).
\<close>

definition digitChar :: "nat \<Rightarrow> char" where
  "digitChar d = char_of (48 + d)"

fun showNat :: "nat \<Rightarrow> string" where
  "showNat n = (if n < 10 then [digitChar n] else showNat (n div 10) @ [digitChar (n mod 10)])"

declare showNat.simps [simp del]

definition showInt :: "int \<Rightarrow> string" where
  "showInt i = (if i < 0 then CHR ''-'' # showNat (nat (- i)) else showNat (nat i))"

text \<open>
  \<^verbatim>\<open>String(v)\<close>, as \<^verbatim>\<open>new Error(v)\<close> applies it to its argument. An array is joined
  with commas, \<^verbatim>\<open>null\<close> and \<^verbatim>\<open>undefined\<close> elements giving the empty text. An
  object is \<^verbatim>\<open>[object Object]\<close> through the inherited \<^verbatim>\<open>toString\<close>; an own
  \<^verbatim>\<open>toString\<close> property that holds data is not callable, and then neither
  \<^verbatim>\<open>valueOf\<close> gives a primitive: a TypeError.
\<close>

fun toStringJS :: "jsval \<Rightarrow> js_error + string"
  and joinJS :: "jsval list \<Rightarrow> js_error + string" where
  "toStringJS JUndefined = Inr ''undefined''"
| "toStringJS JNull = Inr ''null''"
| "toStringJS (JBool b) = Inr (if b then ''true'' else ''false'')"
| "toStringJS (JNum n) = Inr (showInt n)"
| "toStringJS (JStr s) = Inr s"
| "toStringJS (JArr xs) = joinJS xs"
| "toStringJS (JObj ps) =
     (case map_of ps ''toString'' of
        None \<Rightarrow> Inr ''[object Object]''
      | Some (Accessor e) \<Rightarrow> Inl e
      | Some (Data v) \<Rightarrow>
          (case map_of ps ''valueOf'' of Some (Accessor e) \<Rightarrow> Inl e | _ \<Rightarrow> Inl TypeError))"
| "joinJS [] = Inr []"
| "joinJS (x # xs) =
     (case (if x = JNull \<or> x = JUndefined then Inr [] else toStringJS x) of
        Inl e \<Rightarrow> Inl e
      | Inr s \<Rightarrow>
          if xs = [] then Inr s
          else (case joinJS xs of Inl e \<Rightarrow> Inl e | Inr r \<Rightarrow> Inr (s @ '','' @ r)))"

section \<open>The media URL extractor (Chat.tsx, extractVideoUrls)\<close>

text \<open>
  The body of the \<^verbatim>\<open>try\<close> block pushes onto the array \<^verbatim>\<open>urls\<close> and may raise.
  A statement of the block maps the array to the array it leaves behind, together with
  the error it raised, if any; \<open>andThen\<close> runs the next statement only after a normal
  completion, and \<open>forEach\<close> is \<^verbatim>\<open>xs.forEach(f)\<close>.
\<close>

type_synonym urls_state = "string list \<times> js_error option"

fun andThen :: "urls_state \<Rightarrow> (string list \<Rightarrow> urls_state) \<Rightarrow> urls_state" where
  "andThen (urls, None) f = f urls"
| "andThen (urls, Some e) f = (urls, Some e)"

fun forEach :: "('a \<Rightarrow> string list \<Rightarrow> urls_state) \<Rightarrow> 'a list \<Rightarrow> string list \<Rightarrow> urls_state" where
  "forEach f [] urls = (urls, None)"
| "forEach f (x # xs) urls = andThen (f x urls) (forEach f xs)"

lemma forEach_cong [fundef_cong]:
  "xs = ys \<Longrightarrow> (\<And>x u. x \<in> set ys \<Longrightarrow> f x u = g x u) \<Longrightarrow>
   forEach f xs urls = forEach g ys urls"
proof (induction ys arbitrary: xs urls)
  case Nil
  then show ?case by simp
next
  case (Cons y ys)
  have "forEach f ys u = forEach g ys u" for u
    using Cons.IH [of ys u] Cons.prems(2) by simp
  then have "forEach f ys = forEach g ys" by (simp add: fun_eq_iff)
  with Cons.prems show ?case by simp
qed

text \<open>\<^verbatim>\<open>if (typeof url === 'string') urls.push(url)\<close>\<close>

fun pushIfString :: "jsval \<Rightarrow> string list \<Rightarrow> urls_state" where
  "pushIfString (JStr s) urls = (urls @ [s], None)"
| "pushIfString v urls = (urls, None)"

definition videoFields :: "string list" where
  "videoFields =
     [''video_url'', ''video_urls'', ''stream_url'', ''stream_urls'', ''feed_url'', ''feed_urls'',
      ''camera_url'', ''camera_urls'']"

text \<open>The first statement: \<^verbatim>\<open>if (toolData.url && typeof toolData.url === 'string')\<close>.\<close>

definition checkUrl :: "jsval \<Rightarrow> string list \<Rightarrow> urls_state" where
  "checkUrl toolData urls =
     (case getProp toolData ''url'' of
        Inl e \<Rightarrow> (urls, Some e)
      | Inr v \<Rightarrow> if truthy v \<and> isString v then pushIfString v urls else (urls, None))"

text \<open>The second: \<^verbatim>\<open>if (toolData.urls && Array.isArray(toolData.urls))\<close>.\<close>

definition checkUrls :: "jsval \<Rightarrow> string list \<Rightarrow> urls_state" where
  "checkUrls toolData urls =
     (case getProp toolData ''urls'' of
        Inl e \<Rightarrow> (urls, Some e)
      | Inr v \<Rightarrow>
          if truthy v \<and> isArray v then forEach pushIfString (elements v) urls
          else (urls, None))"

text \<open>The callback of \<^verbatim>\<open>videoFields.forEach\<close>.\<close>

definition checkField :: "jsval \<Rightarrow> string \<Rightarrow> string list \<Rightarrow> urls_state" where
  "checkField toolData field urls =
     (case getProp toolData field of
        Inl e \<Rightarrow> (urls, Some e)
      | Inr v \<Rightarrow>
          if truthy v
          then (if isString v then pushIfString v urls
                else if isArray v then forEach pushIfString (elements v) urls
                else (urls, None))
          else (urls, None))"

lemma size_readAll:
  "readAll ps = Inr vs \<Longrightarrow> v \<in> set vs \<Longrightarrow> size v < Suc (size_list (size_property size) ps)"
proof (induction ps arbitrary: vs)
  case Nil
  then show ?case by simp
next
  case (Cons p ps)
  then show ?case
    by (cases p) (auto split: sum.splits)
qed

lemma size_objectValues:
  assumes "objectValues toolData = Inr vs" and "v \<in> set vs" and "isPlainObject v"
  shows "size v < size toolData"
proof (cases toolData)
  case (JArr xs)
  with assms show ?thesis
    by (auto simp: less_Suc_eq_le size_list_estimation')
next
  case (JObj ps)
  with assms have "size v < Suc (size_list (size_property size) (map snd ps))"
    by (auto dest: size_readAll)
  moreover have "size_list (size_property size) (map snd ps)
                 \<le> size_list (size_prod (\<lambda>_. 0) (size_property size)) ps"
    by (induction ps) auto
  ultimately show ?thesis using JObj by simp
next
  case (JStr s)
  with assms show ?thesis by auto
qed (use assms in auto)

text \<open>
  \<open>extractVideoUrls\<close> is the function, \<open>tryBlock\<close> the body of its \<^verbatim>\<open>try\<close>: the
  four statements in order, the last one the walk over \<^verbatim>\<open>Object.values(toolData)\<close>
  with the recursive call. The \<^verbatim>\<open>catch\<close> clause only logs, so whichever way the block
  is left, the function returns the array as the block left it. The result type keeps
  the possibility of an exception leaving the call, which the recursive call site
  would not catch either. This is the extractor on a call stack with room for any
  nesting; the finite stack follows.
\<close>

function extractVideoUrls :: "jsval \<Rightarrow> js_error + string list"
  and tryBlock :: "jsval \<Rightarrow> urls_state" where
  "extractVideoUrls toolData =
     (if \<not> truthy toolData then Inr []
      else (case tryBlock toolData of (urls, caught) \<Rightarrow> Inr urls))"
| "tryBlock toolData =
     andThen (checkUrl toolData []) (\<lambda>urls.
     andThen (checkUrls toolData urls) (\<lambda>urls.
     andThen (forEach (checkField toolData) videoFields urls) (\<lambda>urls.
       (case objectValues toolData of
          Inl e \<Rightarrow> (urls, Some e)
        | Inr vals \<Rightarrow>
            forEach (\<lambda>val urls.
              if isPlainObject val
              then (case extractVideoUrls val of
                      Inl e \<Rightarrow> (urls, Some e)
                    | Inr nestedUrls \<Rightarrow> (urls @ nestedUrls, None))
              else (urls, None)) vals urls))))"
  by pat_completeness auto
termination
proof (relation "measure (\<lambda>x. case x of Inl v \<Rightarrow> 2 * size v + 1 | Inr v \<Rightarrow> 2 * size v)")
  show "wf (measure (\<lambda>x. case x of Inl v \<Rightarrow> 2 * size v + 1 | Inr (v :: jsval) \<Rightarrow> 2 * size v))"
    by simp
qed (auto dest: size_objectValues)

declare extractVideoUrls.simps [simp del] tryBlock.simps [simp del]

subsection \<open>The extractor on a finite call stack\<close>

text \<open>
  Every activation of \<^verbatim>\<open>extractVideoUrls\<close> takes room on the engine's call stack, and
  a call for which no room is left raises a RangeError instead of running. The amount
  of room is the engine's, so it is a parameter: \<open>room\<close> is the number of nested
  activations of the extractor that still fit. The error is raised on entry to the
  callee, before its \<^verbatim>\<open>try\<close> block, so it surfaces at the call site: for a nested
  call, inside the \<^verbatim>\<open>try\<close> block of the calling activation. The calls that the
  extractor makes to built-in functions, the \<^verbatim>\<open>console.warn\<close> of the \<^verbatim>\<open>catch\<close>
  clause among them, are taken to find room.
\<close>

function extractVideoUrlsWithin :: "nat \<Rightarrow> jsval \<Rightarrow> js_error + string list"
  and tryBlockWithin :: "nat \<Rightarrow> jsval \<Rightarrow> urls_state" where
  "extractVideoUrlsWithin 0 toolData = Inl RangeError"
| "extractVideoUrlsWithin (Suc room) toolData =
     (if \<not> truthy toolData then Inr []
      else (case tryBlockWithin room toolData of (urls, caught) \<Rightarrow> Inr urls))"
| "tryBlockWithin room toolData =
     andThen (checkUrl toolData []) (\<lambda>urls.
     andThen (checkUrls toolData urls) (\<lambda>urls.
     andThen (forEach (checkField toolData) videoFields urls) (\<lambda>urls.
       (case objectValues toolData of
          Inl e \<Rightarrow> (urls, Some e)
        | Inr vals \<Rightarrow>
            forEach (\<lambda>val urls.
              if isPlainObject val
              then (case extractVideoUrlsWithin room val of
                      Inl e \<Rightarrow> (urls, Some e)
                    | Inr nestedUrls \<Rightarrow> (urls @ nestedUrls, None))
              else (urls, None)) vals urls))))"
  by pat_completeness auto
termination
proof (relation "measure (\<lambda>x. case x of Inl (room, v) \<Rightarrow> 2 * room | Inr (room, v) \<Rightarrow> 2 * room + 1)")
  show "wf (measure (\<lambda>x. case x of Inl (room, v :: jsval) \<Rightarrow> 2 * room
                                   | Inr (room, v :: jsval) \<Rightarrow> 2 * room + 1))"
    by simp
qed auto

declare extractVideoUrlsWithin.simps [simp del] tryBlockWithin.simps [simp del]

text \<open>
  The first three statements of the \<^verbatim>\<open>try\<close> block, which read the payload's own
  fields, and what one of the payload's values adds to the array when the walk over
  \<^verbatim>\<open>Object.values\<close> reaches it and the nested call returns.
\<close>

definition directFields :: "jsval \<Rightarrow> urls_state" where
  "directFields toolData =
     andThen (checkUrl toolData []) (\<lambda>urls.
     andThen (checkUrls toolData urls) (\<lambda>urls.
     forEach (checkField toolData) videoFields urls))"

definition nestedUrlsWithin :: "nat \<Rightarrow> jsval \<Rightarrow> string list" where
  "nestedUrlsWithin room val =
     (if isPlainObject val
      then (case extractVideoUrlsWithin room val of Inl e \<Rightarrow> [] | Inr nestedUrls \<Rightarrow> nestedUrls)
      else [])"


text \<open>
  The specification's failure policy on the finite stack, in its own words: any error
  during the traversal aborts the traversal, which returns the candidates accumulated so
  far. An error in a nested mapping, the RangeError of a call that finds no room
  included, ends the enclosing walk as well.
\<close>

fun specTraversalWithin :: "nat \<Rightarrow> jsval \<Rightarrow> urls_state" where
  "specTraversalWithin 0 toolData = ([], Some RangeError)"
| "specTraversalWithin (Suc room) toolData =
     (if \<not> truthy toolData then ([], None)
      else
        andThen (checkUrl toolData []) (\<lambda>urls.
        andThen (checkUrls toolData urls) (\<lambda>urls.
        andThen (forEach (checkField toolData) videoFields urls) (\<lambda>urls.
          (case objectValues toolData of
             Inl e \<Rightarrow> (urls, Some e)
           | Inr vals \<Rightarrow>
               forEach (\<lambda>val urls.
                 if isPlainObject val
                 then (case specTraversalWithin room val of
                         (nestedUrls, raised) \<Rightarrow> (urls @ nestedUrls, raised))
                 else (urls, None)) vals urls)))))"

declare specTraversalWithin.simps [simp del]

definition specExtractWithin :: "nat \<Rightarrow> jsval \<Rightarrow> string list" where
  "specExtractWithin room toolData = fst (specTraversalWithin room toolData)"

section \<open>The transport wrapper (services/apiService.ts, ApiService)\<close>

text \<open>
  \<^verbatim>\<open>fetch\<close> is the environment: a function from the request to the way its promise
  settles. A response carries its status and the way \<^verbatim>\<open>response.json()\<close> settles:
  the parsed body, or the error of a body that is not JSON. The request body is the
  value handed to \<^verbatim>\<open>JSON.stringify\<close>.
\<close>

record request =
  url :: string
  http_method :: string
  headers :: "(string \<times> string) list"
  body :: "jsval option"

record response =
  status :: nat
  json :: "js_error + jsval"

datatype fetch_result = Rejected js_error | Resolved response

text \<open>\<^verbatim>\<open>response.ok\<close>: the status is in the range 200 to 299.\<close>

definition ok :: "response \<Rightarrow> bool" where
  "ok r = (200 \<le> status r \<and> status r \<le> 299)"

text \<open>\<^verbatim>\<open>import.meta.env.VITE_API_BASE_URL || 'http://localhost:8070'\<close>\<close>

definition API_BASE_URL :: "string option \<Rightarrow> string" where
  "API_BASE_URL env =
     (case env of
        None \<Rightarrow> ''http://localhost:8070''
      | Some s \<Rightarrow> if s \<noteq> [] then s else ''http://localhost:8070'')"

definition chatRequest :: "string \<Rightarrow> string \<Rightarrow> string \<Rightarrow> request" where
  "chatRequest baseUrl threadId message =
     \<lparr>url = baseUrl @ ''/chat/ask'', http_method = ''POST'',
      headers = [(''Content-Type'', ''application/json'')],
      body = Some (obj [(''thread_id'', JStr threadId), (''message'', JStr message)])\<rparr>"

definition docsRequest :: "string \<Rightarrow> request" where
  "docsRequest baseUrl = \<lparr>url = baseUrl @ ''/docs'', http_method = ''GET'', headers = [], body = None\<rparr>"

text \<open>
  \<^verbatim>\<open>throw new Error(errorData.detail || `HTTP error! status: ${response.status}`)\<close>:
  the error that the statement raises, which is the new \<^verbatim>\<open>Error\<close> unless reading
  \<^verbatim>\<open>detail\<close> or converting it to text raises first.
\<close>

definition httpError :: "response \<Rightarrow> jsval \<Rightarrow> js_error" where
  "httpError r errorData =
     (case getProp errorData ''detail'' of
        Inl e \<Rightarrow> e
      | Inr detail \<Rightarrow>
          (case toStringJS
                  (if truthy detail then detail
                   else JStr (''HTTP error! status: '' @ showNat (status r))) of
             Inl e \<Rightarrow> e
           | Inr message \<Rightarrow> Error message))"

text \<open>
  \<^verbatim>\<open>askQuestion\<close>. The \<^verbatim>\<open>catch\<close> clause logs the error and throws it again, so an
  error raised anywhere in the \<^verbatim>\<open>try\<close> block is the rejection of the promise. The
  thread identifier defaults to \<^verbatim>\<open>"1"\<close>.
\<close>

definition askQuestion ::
  "(request \<Rightarrow> fetch_result) \<Rightarrow> string \<Rightarrow> string \<Rightarrow> string option \<Rightarrow> js_error + jsval" where
  "askQuestion fetch baseUrl message threadId =
     (case fetch (chatRequest baseUrl (case threadId of None \<Rightarrow> ''1'' | Some t \<Rightarrow> t) message) of
        Rejected e \<Rightarrow> Inl e
      | Resolved r \<Rightarrow>
          if \<not> ok r
          then (case json r of Inl e \<Rightarrow> Inl e | Inr errorData \<Rightarrow> Inl (httpError r errorData))
          else json r)"

text \<open>\<^verbatim>\<open>testConnection\<close>: the \<^verbatim>\<open>catch\<close> clause returns \<^verbatim>\<open>false\<close>.\<close>

definition testConnection :: "(request \<Rightarrow> fetch_result) \<Rightarrow> string \<Rightarrow> js_error + bool" where
  "testConnection fetch baseUrl =
     (case fetch (docsRequest baseUrl) of
        Rejected e \<Rightarrow> Inr False
      | Resolved r \<Rightarrow> Inr (ok r))"

section \<open>The conversation (Chat.tsx, Chat and handleSend)\<close>

datatype role = User | Bot

text \<open>
  The interface \<^verbatim>\<open>Message\<close>, with the fields \<^verbatim>\<open>id\<close>, \<^verbatim>\<open>text\<close>, \<^verbatim>\<open>sender\<close> and
  \<^verbatim>\<open>toolData\<close>. The text of a bot message is whatever the response carries under
  \<^verbatim>\<open>response\<close>, and an absent \<^verbatim>\<open>toolData\<close> is \<^verbatim>\<open>undefined\<close>.
\<close>

record message =
  id_m :: nat
  text_m :: jsval
  sender :: role
  toolData :: jsval

text \<open>The state of the component: \<^verbatim>\<open>messages\<close>, \<^verbatim>\<open>input\<close>, \<^verbatim>\<open>isLoading\<close>.\<close>

record chat =
  messages :: "message list"
  input :: string
  isLoading :: bool

definition initialChat :: chat where
  "initialChat =
     \<lparr>messages =
        [\<lparr>id_m = 1,
          text_m = JStr (''Hi there! I'' @ [CHR 0x27] @
                        ''m Rise Bot, your AI assistant. What can I help you with today?''),
          sender = Bot, toolData = JUndefined\<rparr>],
      input = [], isLoading = False\<rparr>"

text \<open>The updater \<^verbatim>\<open>prev => [...prev, m]\<close> handed to \<^verbatim>\<open>setMessages\<close>.\<close>

definition appendMessage :: "message \<Rightarrow> message list \<Rightarrow> message list" where
  "appendMessage m prev = prev @ [m]"

definition errorMessage :: "chat \<Rightarrow> message" where
  "errorMessage c =
     \<lparr>id_m = length (messages c) + 2,
      text_m = JStr (''Sorry, I'' @ [CHR 0x27] @
                    ''m having trouble connecting to the server. Please try again later.''),
      sender = Bot, toolData = JUndefined\<rparr>"

definition userMessage :: "chat \<Rightarrow> message" where
  "userMessage c =
     \<lparr>id_m = length (messages c) + 1, text_m = JStr (input c), sender = User,
      toolData = JUndefined\<rparr>"

text \<open>
  The bot message built from a resolved \<^verbatim>\<open>askQuestion\<close>; reading
  \<^verbatim>\<open>response.response\<close> or \<^verbatim>\<open>response.tool_data\<close> may raise, inside the handler's
  \<^verbatim>\<open>try\<close>.
\<close>

definition botResponse :: "chat \<Rightarrow> jsval \<Rightarrow> js_error + message" where
  "botResponse c resp =
     (case getProp resp ''response'' of
        Inl e \<Rightarrow> Inl e
      | Inr txt \<Rightarrow>
          (case getProp resp ''tool_data'' of
             Inl e \<Rightarrow> Inl e
           | Inr td \<Rightarrow>
               Inr \<lparr>id_m = length (messages c) + 2, text_m = txt, sender = Bot, toolData = td\<rparr>))"

text \<open>
  \<^verbatim>\<open>handleSend\<close>. The handler reads \<^verbatim>\<open>messages\<close>, \<^verbatim>\<open>input\<close> and
  \<^verbatim>\<open>isLoading\<close> from the render \<open>c\<close> it was created in, and its updaters run on the
  state \<open>live\<close> current at the time. \<open>handleSendSteps\<close> lists the states it produces:
  the one after the statements before the \<^verbatim>\<open>await\<close>, and the one after the
  \<^verbatim>\<open>try\<close>, \<^verbatim>\<open>catch\<close> and \<^verbatim>\<open>finally\<close> clauses have run on the settled promise.
  No other handler runs in between.
\<close>

definition handleSendSteps ::
  "(request \<Rightarrow> fetch_result) \<Rightarrow> string \<Rightarrow> string \<Rightarrow> chat \<Rightarrow> chat \<Rightarrow> chat list" where
  "handleSendSteps fetch baseUrl threadId c live =
     (if trim (input c) \<noteq> [] \<and> \<not> isLoading c
      then
        (let sent = live\<lparr>messages := appendMessage (userMessage c) (messages live),
                         input := [], isLoading := True\<rparr>;
             reply =
               (case askQuestion fetch baseUrl (input c) (Some threadId) of
                  Inl e \<Rightarrow> Inl e
                | Inr resp \<Rightarrow> botResponse c resp);
             answered =
               (case reply of
                  Inr m \<Rightarrow> sent\<lparr>messages := appendMessage m (messages sent)\<rparr>
                | Inl e \<Rightarrow> sent\<lparr>messages := appendMessage (errorMessage c) (messages sent)\<rparr>)
         in [sent, answered\<lparr>isLoading := False\<rparr>])
      else [])"

definition handleSend ::
  "(request \<Rightarrow> fetch_result) \<Rightarrow> string \<Rightarrow> string \<Rightarrow> chat \<Rightarrow> chat \<Rightarrow> chat" where
  "handleSend fetch baseUrl threadId c live = last (live # handleSendSteps fetch baseUrl threadId c live)"

text \<open>The media panels of a message, as the render computes them.\<close>

definition mediaPanels :: "message \<Rightarrow> js_error + (string \<times> classification) list" where
  "mediaPanels m =
     (case extractVideoUrls (toolData m) of
        Inl e \<Rightarrow> Inl e
      | Inr videoUrls \<Rightarrow> Inr (map (\<lambda>u. (u, classify u)) videoUrls))"

section \<open>Example inputs\<close>

text \<open>
  A conversation in which the user has typed a question, the response of the
  specification's example, and an environment in which every request fails on the network.
\<close>

definition typedChat :: chat where
  "typedChat = initialChat\<lparr>input := ''show me the cameras''\<rparr>"

definition hiResponse :: jsval where
  "hiResponse =
     obj [(''response'', JStr ''hi''),
          (''tool_data'', obj [(''urls'', JArr [JStr ''a.mp4'', JStr ''b''])])]"

definition offline :: "request \<Rightarrow> fetch_result" where
  "offline req = Rejected TypeError"




section \<open>Properties of the strings\<close>

lemma startsWith_prefix: "startsWith s p = prefix p s"
  by (induction s p rule: startsWith.induct) auto

lemma includes_sublist: "includes_str s p = sublist p s"
proof (induction s)
  case Nil
  show ?case by (cases p) simp_all
next
  case (Cons c cs)
  show ?case
  proof (cases p)
    case Nil
    then show ?thesis by simp
  next
    case (Cons q qs)
    with Cons.IH show ?thesis
      by (simp add: startsWith_prefix sublist_Cons_right del: startsWith.simps)
  qed
qed

lemma lowerChar_idem: "lowerChar (lowerChar c) = lowerChar c"
proof -
  have "of_char (char_of (of_char c + 32 :: nat)) = (of_char c + 32 :: nat)"
    if "(of_char c :: nat) \<le> 222"
    using that by simp
  then show ?thesis
    by (auto simp: lowerChar_def Let_def)
qed

lemma toLowerCase_idem: "toLowerCase (toLowerCase s) = toLowerCase s"
  by (simp add: toLowerCase_def lowerChar_idem)

lemma char_of_eq_iff: "(char_of (n::nat) = c) = (n mod 256 = of_char c)"
proof -
  have "(char_of n = c) = (char_of n = char_of (of_char c :: nat))" by simp
  also have "\<dots> = (n mod 256 = of_char c)"
    by (simp only: char_of_quasi_inj of_char_mod_256)
  finally show ?thesis .
qed

lemma eq_char_of_iff: "(c = char_of (n::nat)) = (n mod 256 = of_char c)"
  using char_of_eq_iff [of n c] by auto

text \<open>The unfoldings that evaluate the classifier and the extractor on a literal.\<close>

lemmas classifier_eval = classify_def isVideoUrl_def toLowerCase_def lowerChar_def
  videoExtensions_def videoHosts_def char_of_eq_iff eq_char_of_iff

lemmas extractor_eval = obj_def checkUrl_def checkUrls_def checkField_def videoFields_def
  extractVideoUrls.simps tryBlock.simps

section \<open>The classifier\<close>

lemma rtsp_chars:
  "\<forall>q \<in> set ''rtsp://''. lowerChar q = q \<and> lowerChar (upperAscii q) = q"
  by (simp add: lowerChar_def upperAscii_def char_of_eq_iff)

lemma beginsAnyCase_lower:
  assumes "\<forall>q \<in> set p. lowerChar q = q \<and> lowerChar (upperAscii q) = q"
    and "beginsAnyCase s p"
  shows "startsWith (toLowerCase s) p"
  using assms by (induction s p rule: beginsAnyCase.induct) (auto simp: toLowerCase_def)

text \<open>
  C4. Every URL that begins with \<^verbatim>\<open>rtsp://\<close>, each letter of the scheme in either
  case, is classified as an RTSP stream, whatever follows the scheme.
\<close>

theorem C4_rtsp_scheme: "beginsAnyCase u ''rtsp://'' \<Longrightarrow> classify u = RtspStream"
  using beginsAnyCase_lower [OF rtsp_chars, of u]
  by (simp add: classify_def isVideoUrl_def Let_def)

theorem C4_rtsp_scheme_witness:
  "beginsAnyCase ''RtSp://cam.example/live/video.mp4'' ''rtsp://'' \<and>
   classify ''RtSp://cam.example/live/video.mp4'' = RtspStream"
proof -
  have scheme: "beginsAnyCase ''RtSp://cam.example/live/video.mp4'' ''rtsp://''"
    by (simp add: upperAscii_def eq_char_of_iff)
  from C4_rtsp_scheme [OF scheme] scheme show ?thesis by simp
qed

text \<open>
  C3, as amended. For every URL that ends, once lowercased, in one of the recognized
  extensions (\<^verbatim>\<open>.mp4\<close>, \<^verbatim>\<open>.webm\<close>, ...), \<^verbatim>\<open>isVideoUrl\<close> is true, and the URL is
  rendered as a video file unless it begins with \<^verbatim>\<open>rtsp://\<close> in any letter case, in
  which case it is rendered as an RTSP stream.
\<close>

theorem C3_video_extension:
  assumes "ext \<in> set videoExtensions" and "suffix ext (toLowerCase u)"
  shows "isVideoUrl u \<and>
         classify u = (if startsWith (toLowerCase u) ''rtsp://'' then RtspStream else VideoFile)"
proof -
  from assms(2) have "includes_str (toLowerCase u) ext"
    by (simp add: includes_sublist)
  with assms(1) have "list_ex (\<lambda>e. includes_str (toLowerCase u) e) videoExtensions"
    by (auto simp: list_ex_iff)
  then have "isVideoUrl u"
    by (simp add: isVideoUrl_def Let_def)
  then show ?thesis
    by (simp add: classify_def)
qed

theorem C3_video_extension_witness:
  "''.webm'' \<in> set videoExtensions \<and> suffix ''.webm'' (toLowerCase ''https://cdn.example/Clip.WEBM'') \<and>
   isVideoUrl ''https://cdn.example/Clip.WEBM'' \<and>
   classify ''https://cdn.example/Clip.WEBM'' = VideoFile"
proof -
  have ext: "''.webm'' \<in> set videoExtensions"
    by (simp add: videoExtensions_def)
  have lower: "toLowerCase ''https://cdn.example/Clip.WEBM'' = ''https://cdn.example/clip.webm''"
    by (simp add: toLowerCase_def lowerChar_def char_of_eq_iff)
  have ends: "suffix ''.webm'' (toLowerCase ''https://cdn.example/Clip.WEBM'')"
    unfolding lower by (simp add: suffix_def)
  from C3_video_extension [OF ext ends] ext ends show ?thesis
    unfolding lower by simp
qed

text \<open>
  The claim as stated fails: a URL with the \<^verbatim>\<open>rtsp://\<close> scheme that ends in
  \<^verbatim>\<open>.mp4\<close> is an RTSP stream to the classifier, not a video file.
\<close>

theorem C3_counterexample:
  "''.mp4'' \<in> set videoExtensions \<and> suffix ''.mp4'' ''rtsp://cam/a.mp4'' \<and>
   classify ''rtsp://cam/a.mp4'' = RtspStream \<and> classify ''rtsp://cam/a.mp4'' \<noteq> VideoFile"
  by (simp add: classifier_eval suffix_def)

text \<open>
  C10. The classification of a URL is the classification of the URL lowercased: every
  test of the classifier reads the lowercased URL only.
\<close>

theorem C10_case_insensitive: "classify (toLowerCase u) = classify u"
proof -
  have same: "toLowerCase (toLowerCase u) = toLowerCase u"
    by (rule toLowerCase_idem)
  then have "isVideoUrl (toLowerCase u) = isVideoUrl u"
    by (simp add: isVideoUrl_def)
  with same show ?thesis
    by (simp add: classify_def)
qed

section \<open>The extractor\<close>

text \<open>
  C6. The payload \<^verbatim>\<open>{outer: {video_url: "x"}}\<close>: the key \<^verbatim>\<open>outer\<close> is none of the
  fields the extractor reads, the nested mapping alone yields \<^verbatim>\<open>["x"]\<close>, and the
  extractor, recursing into it, returns exactly \<^verbatim>\<open>["x"]\<close>.
\<close>

theorem C6_nested_payload:
  "''outer'' \<notin> set (''url'' # ''urls'' # videoFields) \<and>
   extractVideoUrls (obj [(''video_url'', JStr ''x'')]) = Inr [''x''] \<and>
   extractVideoUrls (obj [(''outer'', obj [(''video_url'', JStr ''x'')])]) = Inr [''x'']"
proof -
  have key: "''outer'' \<notin> set (''url'' # ''urls'' # videoFields)"
    by (simp add: videoFields_def)
  have nested: "extractVideoUrls (obj [(''video_url'', JStr ''x'')]) = Inr [''x'']"
    by (simp add: extractor_eval)
  have "extractVideoUrls (obj [(''outer'', obj [(''video_url'', JStr ''x'')])]) = Inr [''x'']"
    by (simp add: extractor_eval)
  with key nested show ?thesis by simp
qed

subsection \<open>The finite call stack\<close>

text \<open>
  An activation returns the array as its \<^verbatim>\<open>try\<close> block left it. With no room for a
  nested call the walk over the values raises at the first nested mapping; with room,
  every nested call returns, and the walk appends what each returns.
\<close>

lemma within_returns:
  "extractVideoUrlsWithin (Suc n) p = Inr (if truthy p then fst (tryBlockWithin n p) else [])"
  by (cases "tryBlockWithin n p") (simp add: extractVideoUrlsWithin.simps)

lemma andThen_assoc: "andThen (andThen s f) g = andThen s (\<lambda>u. andThen (f u) g)"
proof (cases s)
  case (Pair u r)
  then show ?thesis by (cases r) simp_all
qed

lemma walk_no_room:
  "forEach (\<lambda>val urls.
      if isPlainObject val
      then (case extractVideoUrlsWithin 0 val of
              Inl e \<Rightarrow> (urls, Some e)
            | Inr nestedUrls \<Rightarrow> (urls @ nestedUrls, None))
      else (urls, None)) vals urls
   = (urls, if list_ex isPlainObject vals then Some RangeError else None)"
  by (induction vals) (simp_all add: extractVideoUrlsWithin.simps)

lemma walk_with_room:
  "forEach (\<lambda>val urls.
      if isPlainObject val
      then (case extractVideoUrlsWithin (Suc n) val of
              Inl e \<Rightarrow> (urls, Some e)
            | Inr nestedUrls \<Rightarrow> (urls @ nestedUrls, None))
      else (urls, None)) vals urls
   = (urls @ concat (map (nestedUrlsWithin (Suc n)) vals), None)"
  by (induction vals arbitrary: urls) (simp_all add: within_returns nestedUrlsWithin_def)

lemma tryBlockWithin_0:
  "tryBlockWithin 0 p =
     andThen (directFields p) (\<lambda>urls.
       case objectValues p of
         Inl e \<Rightarrow> (urls, Some e)
       | Inr vals \<Rightarrow> (urls, if list_ex isPlainObject vals then Some RangeError else None))"
  by (simp add: tryBlockWithin.simps [of 0 p] directFields_def andThen_assoc walk_no_room
      cong: sum.case_cong)

lemma tryBlockWithin_Suc:
  "tryBlockWithin (Suc n) p =
     andThen (directFields p) (\<lambda>urls.
       case objectValues p of
         Inl e \<Rightarrow> (urls, Some e)
       | Inr vals \<Rightarrow> (urls @ concat (map (nestedUrlsWithin (Suc n)) vals), None))"
  by (simp add: tryBlockWithin.simps [of "Suc n" p] directFields_def andThen_assoc walk_with_room
      cong: sum.case_cong)

text \<open>
  The extractor on the unbounded stack is the extractor on any stack with more room than
  the payload has nesting: the two agree at every room above the size of the payload.
\<close>

lemma andThen_eqI:
  assumes "\<And>u. s = (u, None) \<Longrightarrow> f u = g u"
  shows "andThen s f = andThen s g"
proof (cases s)
  case (Pair u r)
  with assms show ?thesis by (cases r) simp_all
qed

lemma within_enough:
  "size p < n \<Longrightarrow> extractVideoUrlsWithin (Suc n) p = extractVideoUrls p"
proof (induction n arbitrary: p)
  case 0
  then show ?case by simp
next
  case (Suc n)
  have "tryBlockWithin (Suc n) p = tryBlock p"
    unfolding tryBlockWithin.simps [of "Suc n" p] tryBlock.simps [of p]
  proof (intro andThen_eqI)
    fix u1 u2 u3
    show "(case objectValues p of Inl e \<Rightarrow> (u3, Some e)
           | Inr vals \<Rightarrow> forEach (\<lambda>val urls. if isPlainObject val
                then (case extractVideoUrlsWithin (Suc n) val of Inl e \<Rightarrow> (urls, Some e)
                      | Inr nestedUrls \<Rightarrow> (urls @ nestedUrls, None))
                else (urls, None)) vals u3)
        = (case objectValues p of Inl e \<Rightarrow> (u3, Some e)
           | Inr vals \<Rightarrow> forEach (\<lambda>val urls. if isPlainObject val
                then (case extractVideoUrls val of Inl e \<Rightarrow> (urls, Some e)
                      | Inr nestedUrls \<Rightarrow> (urls @ nestedUrls, None))
                else (urls, None)) vals u3)"
    proof (cases "objectValues p")
      case (Inl e)
      then show ?thesis by simp
    next
      case (Inr vals)
      have "extractVideoUrlsWithin (Suc n) x = extractVideoUrls x"
        if "x \<in> set vals" and "isPlainObject x" for x
      proof -
        from size_objectValues [OF Inr that] Suc.prems have "size x < n" by simp
        then show ?thesis by (rule Suc.IH)
      qed
      then have "forEach (\<lambda>val urls. if isPlainObject val
                then (case extractVideoUrlsWithin (Suc n) val of Inl e \<Rightarrow> (urls, Some e)
                      | Inr nestedUrls \<Rightarrow> (urls @ nestedUrls, None))
                else (urls, None)) vals u3
          = forEach (\<lambda>val urls. if isPlainObject val
                then (case extractVideoUrls val of Inl e \<Rightarrow> (urls, Some e)
                      | Inr nestedUrls \<Rightarrow> (urls @ nestedUrls, None))
                else (urls, None)) vals u3"
        by (intro forEach_cong) auto
      with Inr show ?thesis by simp
    qed
  qed
  then show ?case
    by (simp add: extractVideoUrlsWithin.simps extractVideoUrls.simps [of p])
qed











subsection \<open>A payload nested deeper than the stack\<close>

lemmas direct_eval = directFields_def obj_def checkUrl_def checkUrls_def checkField_def
  videoFields_def







lemma andThen_return: "andThen s (\<lambda>u. (u, None)) = s"
proof (cases s)
  case (Pair u r)
  then show ?thesis by (cases r) simp_all
qed





text \<open>
  The payloads of the specification's two examples are shallow: the flat one needs room
  for one activation, the nested one for two, and with that much room or more the
  finite stack gives what the unbounded one gives.
\<close>

lemma within_flat_example:
  "extractVideoUrlsWithin (Suc n) (obj [(''urls'', JArr [JStr ''a.mp4'', JStr ''b''])])
     = Inr [''a.mp4'', ''b'']"
  by (cases n) (simp_all add: within_returns tryBlockWithin_0 tryBlockWithin_Suc direct_eval
      nestedUrlsWithin_def)

lemma within_nested_example:
  "extractVideoUrlsWithin (Suc (Suc n)) (obj [(''outer'', obj [(''video_url'', JStr ''x'')])])
     = Inr [''x'']"
proof -
  let ?inner = "obj [(''video_url'', JStr ''x'')]"
  have inner: "extractVideoUrlsWithin (Suc n) ?inner = Inr [''x'']"
    by (cases n) (simp_all add: within_returns tryBlockWithin_0 tryBlockWithin_Suc direct_eval
        nestedUrlsWithin_def)
  have plain: "isPlainObject ?inner"
    by (simp add: obj_def)
  have "directFields (obj [(''outer'', ?inner)]) = ([], None)"
    by (simp add: direct_eval)
  moreover have "objectValues (obj [(''outer'', ?inner)]) = Inr [?inner]"
    by (simp add: obj_def)
  moreover have "nestedUrlsWithin (Suc n) ?inner = [''x'']"
    using inner plain by (simp add: nestedUrlsWithin_def)
  moreover have "truthy (obj [(''outer'', ?inner)])"
    by (simp add: obj_def)
  ultimately show ?thesis
    by (simp add: within_returns [of "Suc n"] tryBlockWithin_Suc)
qed




text \<open>
  The two readings differ on errors only: on a payload whose traversal raises nothing,
  in the payload or in any nested mapping, the extractor returns what the aborting
  traversal of the specification returns.
\<close>

lemma forEach_agree:
  assumes "\<And>x u. x \<in> set xs \<Longrightarrow> snd (g x u) = None \<Longrightarrow> f x u = g x u"
    and "snd (forEach g xs urls) = None"
  shows "forEach f xs urls = forEach g xs urls"
  using assms
proof (induction xs arbitrary: urls)
  case Nil
  then show ?case by simp
next
  case (Cons x xs)
  obtain u' r where gx: "g x urls = (u', r)" by (cases "g x urls")
  show ?case
  proof (cases r)
    case None
    with gx Cons.prems have fx: "f x urls = (u', None)" by simp
    from gx None Cons.prems(2) have "snd (forEach g xs u') = None" by simp
    with Cons.IH [of u'] Cons.prems(1) have "forEach f xs u' = forEach g xs u'" by simp
    with fx gx None show ?thesis by simp
  next
    case (Some e)
    with gx Cons.prems(2) show ?thesis by simp
  qed
qed

lemma spec_truthy:
  "truthy p \<Longrightarrow>
   specTraversalWithin (Suc k) p =
     andThen (checkUrl p []) (\<lambda>urls.
     andThen (checkUrls p urls) (\<lambda>urls.
     andThen (forEach (checkField p) videoFields urls) (\<lambda>urls.
       (case objectValues p of
          Inl e \<Rightarrow> (urls, Some e)
        | Inr vals \<Rightarrow>
            forEach (\<lambda>val urls.
              if isPlainObject val
              then (case specTraversalWithin k val of
                      (nestedUrls, raised) \<Rightarrow> (urls @ nestedUrls, raised))
              else (urls, None)) vals urls))))"
  by (simp add: specTraversalWithin.simps(2) [of k p])

lemma within_spec_quiet:
  "snd (specTraversalWithin (Suc n) p) = None \<Longrightarrow>
   extractVideoUrlsWithin (Suc n) p = Inr (specExtractWithin (Suc n) p)"
proof (induction n arbitrary: p)
  case 0
  have walk: "(\<lambda>val urls. if isPlainObject val
         then (case extractVideoUrlsWithin 0 val of Inl e \<Rightarrow> (urls, Some e)
               | Inr nestedUrls \<Rightarrow> (urls @ nestedUrls, None))
         else (urls, None))
      = (\<lambda>val urls. if isPlainObject val
         then (case specTraversalWithin 0 val of (nestedUrls, raised) \<Rightarrow> (urls @ nestedUrls, raised))
         else (urls, None))"
    by (intro ext) (simp add: extractVideoUrlsWithin.simps specTraversalWithin.simps)
  have "truthy p \<Longrightarrow> tryBlockWithin 0 p = specTraversalWithin (Suc 0) p"
    unfolding tryBlockWithin.simps [of 0 p] walk
    by (simp add: spec_truthy)
  then show ?case
    by (simp add: within_returns specExtractWithin_def specTraversalWithin.simps(2) [of 0 p])
next
  case (Suc n)
  let ?g = "\<lambda>val urls. if isPlainObject val
             then (case specTraversalWithin (Suc n) val of
                     (nestedUrls, raised) \<Rightarrow> (urls @ nestedUrls, raised))
             else (urls, None)"
  let ?f = "\<lambda>val urls. if isPlainObject val
             then (case extractVideoUrlsWithin (Suc n) val of Inl e \<Rightarrow> (urls, Some e)
                   | Inr nestedUrls \<Rightarrow> (urls @ nestedUrls, None))
             else (urls, None)"
  show ?case
  proof (cases "truthy p")
    case False
    then show ?thesis
      by (simp add: within_returns specExtractWithin_def specTraversalWithin.simps(2) [of "Suc n" p])
  next
    case True
    have "tryBlockWithin (Suc n) p = specTraversalWithin (Suc (Suc n)) p"
      unfolding tryBlockWithin.simps [of "Suc n" p] spec_truthy [OF True]
    proof (intro andThen_eqI)
      fix u1 u2 u3
      assume s1: "checkUrl p [] = (u1, None)" and s2: "checkUrls p u1 = (u2, None)"
        and s3: "forEach (checkField p) videoFields u2 = (u3, None)"
      show "(case objectValues p of Inl e \<Rightarrow> (u3, Some e) | Inr vals \<Rightarrow> forEach ?f vals u3)
            = (case objectValues p of Inl e \<Rightarrow> (u3, Some e) | Inr vals \<Rightarrow> forEach ?g vals u3)"
      proof (cases "objectValues p")
        case (Inl e)
        then show ?thesis by simp
      next
        case (Inr vals)
        from Suc.prems True s1 s2 s3 Inr have quiet: "snd (forEach ?g vals u3) = None"
          by (simp add: spec_truthy)
        have "?f x u = ?g x u" if "x \<in> set vals" and "snd (?g x u) = None" for x u
        proof (cases "isPlainObject x")
          case False
          then show ?thesis by simp
        next
          case plain: True
          obtain nested raised where sx: "specTraversalWithin (Suc n) x = (nested, raised)"
            by (cases "specTraversalWithin (Suc n) x")
          with that(2) plain have none: "raised = None" by simp
          with sx have "snd (specTraversalWithin (Suc n) x) = None" by simp
          then have "extractVideoUrlsWithin (Suc n) x = Inr (specExtractWithin (Suc n) x)"
            by (rule Suc.IH)
          with plain sx none show ?thesis
            by (simp add: specExtractWithin_def)
        qed
        with quiet have "forEach ?f vals u3 = forEach ?g vals u3"
          by (intro forEach_agree) auto
        with Inr show ?thesis by simp
      qed
    qed
    with True show ?thesis
      by (simp add: within_returns specExtractWithin_def)
  qed
qed

section \<open>The transport wrapper\<close>

lemma showNat_500: "showNat 500 = ''500''"
  by (simp add: showNat.simps digitChar_def char_of_eq_iff)

text \<open>
  C2. A response with status 500 whose body is not JSON: \<^verbatim>\<open>response.json()\<close> rejects,
  and \<^verbatim>\<open>askQuestion\<close> rejects with that parse error, not with the generic status
  message. (The generic message is what an error body without a \<^verbatim>\<open>detail\<close> gives.)
\<close>

theorem C2_parse_failure_propagates:
  "askQuestion (\<lambda>req. Resolved \<lparr>status = 500, json = Inl SyntaxError\<rparr>) baseUrl question threadId
     = Inl SyntaxError \<and>
   askQuestion (\<lambda>req. Resolved \<lparr>status = 500, json = Inl SyntaxError\<rparr>) baseUrl question threadId
     \<noteq> Inl (Error ''HTTP error! status: 500'') \<and>
   askQuestion (\<lambda>req. Resolved \<lparr>status = 500, json = Inr (obj [])\<rparr>) baseUrl question threadId
     = Inl (Error ''HTTP error! status: 500'')"
proof -
  have bad: "\<not> ok \<lparr>status = 500, json = body\<rparr>" for body
    by (simp add: ok_def)
  have "askQuestion (\<lambda>req. Resolved \<lparr>status = 500, json = Inl SyntaxError\<rparr>) baseUrl question threadId
          = Inl SyntaxError"
    using bad by (simp add: askQuestion_def)
  moreover have "httpError \<lparr>status = 500, json = Inr (obj [])\<rparr> (obj [])
                   = Error ''HTTP error! status: 500''"
    by (simp add: httpError_def obj_def showNat_500)
  then have "askQuestion (\<lambda>req. Resolved \<lparr>status = 500, json = Inr (obj [])\<rparr>) baseUrl question threadId
               = Inl (Error ''HTTP error! status: 500'')"
    using bad by (simp add: askQuestion_def)
  ultimately show ?thesis by simp
qed

text \<open>
  C5. For every response with a status outside 200..299 whose body parses as
  \<^verbatim>\<open>{"detail":"bad thread"}\<close>, \<^verbatim>\<open>askQuestion\<close> rejects with an \<^verbatim>\<open>Error\<close> whose
  message is exactly \<^verbatim>\<open>bad thread\<close>.
\<close>

theorem C5_server_detail:
  assumes "\<not> ok r" and "json r = Inr (obj [(''detail'', JStr ''bad thread'')])"
    and "fetch (chatRequest baseUrl (case threadId of None \<Rightarrow> ''1'' | Some t \<Rightarrow> t) question)
           = Resolved r"
  shows "askQuestion fetch baseUrl question threadId = Inl (Error ''bad thread'')"
  using assms by (simp add: askQuestion_def httpError_def obj_def)

theorem C5_server_detail_witness:
  "\<not> ok \<lparr>status = 404, json = Inr (obj [(''detail'', JStr ''bad thread'')])\<rparr> \<and>
   askQuestion (\<lambda>req. Resolved \<lparr>status = 404, json = Inr (obj [(''detail'', JStr ''bad thread'')])\<rparr>)
     ''http://localhost:8070'' ''hello'' (Some ''thread_1'') = Inl (Error ''bad thread'')"
proof -
  let ?r = "\<lparr>status = 404, json = Inr (obj [(''detail'', JStr ''bad thread'')])\<rparr>"
  have bad: "\<not> ok ?r"
    by (simp add: ok_def)
  from C5_server_detail [of ?r "\<lambda>req. Resolved ?r", OF bad] bad show ?thesis
    by simp
qed

text \<open>
  C9. \<^verbatim>\<open>testConnection\<close> never rejects; it resolves to true exactly when the
  \<^verbatim>\<open>GET\<close> request to \<^verbatim>\<open>{base_url}/docs\<close> resolves to a response whose status is in
  200..299, and to false otherwise, a network failure included.
\<close>

theorem C9_health_check:
  "testConnection fetch baseUrl =
     Inr (\<exists>r. fetch \<lparr>url = baseUrl @ ''/docs'', http_method = ''GET'', headers = [], body = None\<rparr>
                 = Resolved r \<and> 200 \<le> status r \<and> status r \<le> 299)"
proof (cases "fetch (docsRequest baseUrl)")
  case (Rejected e)
  then show ?thesis
    by (simp add: testConnection_def docsRequest_def)
next
  case (Resolved r)
  then show ?thesis
    by (simp add: testConnection_def docsRequest_def ok_def)
qed

section \<open>The conversation\<close>

text \<open>
  C1. When the user has typed a non-blank question, no request is outstanding, and the
  request is answered with a success status and the body
  \<^verbatim>\<open>{"response":"hi","tool_data":{"urls":["a.mp4","b"]}}\<close>, the send flow appends the
  user's message and exactly one bot message; the bot message has the text \<^verbatim>\<open>hi\<close>, the
  extractor applied to its payload yields \<^verbatim>\<open>["a.mp4", "b"]\<close>, and the classifier takes
  \<^verbatim>\<open>a.mp4\<close> for a video and \<^verbatim>\<open>b\<close> for no media.
\<close>

theorem C1_send_flow:
  assumes "trim (input c) \<noteq> []" and "\<not> isLoading c" and "ok r"
    and "json r = Inr (obj [(''response'', JStr ''hi''),
                            (''tool_data'', obj [(''urls'', JArr [JStr ''a.mp4'', JStr ''b''])])])"
    and "fetch (chatRequest baseUrl threadId (input c)) = Resolved r"
  shows "\<exists>bot. messages (handleSend fetch baseUrl threadId c live)
                  = messages live @ [userMessage c, bot] \<and>
               sender (userMessage c) = User \<and> sender bot = Bot \<and>
               text_m bot = JStr ''hi'' \<and>
               extractVideoUrls (toolData bot) = Inr [''a.mp4'', ''b''] \<and>
               classify ''a.mp4'' = VideoFile \<and> classify ''b'' = NonMedia \<and>
               mediaPanels bot = Inr [(''a.mp4'', VideoFile), (''b'', NonMedia)]"
proof -
  let ?bot = "\<lparr>id_m = length (messages c) + 2, text_m = JStr ''hi'', sender = Bot,
               toolData = obj [(''urls'', JArr [JStr ''a.mp4'', JStr ''b''])]\<rparr>"
  from assms have "messages (handleSend fetch baseUrl threadId c live)
                     = messages live @ [userMessage c, ?bot]"
    by (simp add: handleSend_def handleSendSteps_def Let_def askQuestion_def botResponse_def
        appendMessage_def obj_def)
  moreover have "sender (userMessage c) = User"
    by (simp add: userMessage_def)
  moreover have "extractVideoUrls (toolData ?bot) = Inr [''a.mp4'', ''b'']"
    by (simp add: extractor_eval)
  moreover have "classify ''a.mp4'' = VideoFile" and "classify ''b'' = NonMedia"
    by (simp_all add: classifier_eval)
  ultimately show ?thesis
    by (intro exI [of _ ?bot]) (simp add: mediaPanels_def)
qed

theorem C1_send_flow_witness:
  "trim (input typedChat) \<noteq> [] \<and> \<not> isLoading typedChat \<and>
   ok \<lparr>status = 200, json = Inr hiResponse\<rparr> \<and>
   (\<exists>bot. messages (handleSend (\<lambda>req. Resolved \<lparr>status = 200, json = Inr hiResponse\<rparr>)
                      ''http://localhost:8070'' ''thread_1'' typedChat typedChat)
             = messages typedChat @ [userMessage typedChat, bot] \<and>
           sender (userMessage typedChat) = User \<and> sender bot = Bot \<and>
           text_m bot = JStr ''hi'' \<and>
           extractVideoUrls (toolData bot) = Inr [''a.mp4'', ''b''] \<and>
           classify ''a.mp4'' = VideoFile \<and> classify ''b'' = NonMedia \<and>
           mediaPanels bot = Inr [(''a.mp4'', VideoFile), (''b'', NonMedia)])"
proof -
  let ?r = "\<lparr>status = 200, json = Inr hiResponse\<rparr>"
  have typed: "trim (input typedChat) \<noteq> []"
    by (simp add: typedChat_def trim_def isWhiteSpace_def)
  have idle: "\<not> isLoading typedChat"
    by (simp add: typedChat_def initialChat_def)
  have good: "ok ?r"
    by (simp add: ok_def)
  have parsed: "json ?r = Inr (obj [(''response'', JStr ''hi''),
                   (''tool_data'', obj [(''urls'', JArr [JStr ''a.mp4'', JStr ''b''])])])"
    by (simp add: hiResponse_def)
  have settled: "(\<lambda>req. Resolved ?r) (chatRequest ''http://localhost:8070'' ''thread_1''
                   (input typedChat)) = Resolved ?r"
    by simp
  from C1_send_flow [of typedChat ?r "\<lambda>req. Resolved ?r" "''http://localhost:8070''"
      "''thread_1''" typedChat, OF typed idle good parsed settled] typed idle good
  show ?thesis by blast
qed

text \<open>
  C8. Every transition of \<^verbatim>\<open>handleSend\<close> (the user's message, then the bot's answer
  or the error message) appends one message to the list it finds: the old list is a
  prefix of the new one, and no message already in it is changed or removed.
\<close>

theorem C8_append_only:
  assumes "(s, s') \<in> set (zip (live # handleSendSteps fetch baseUrl threadId c live)
                               (handleSendSteps fetch baseUrl threadId c live))"
  shows "(\<exists>m. messages s' = appendMessage m (messages s)) \<and>
         prefix (messages s) (messages s') \<and>
         take (length (messages s)) (messages s') = messages s"
proof -
  from assms have "\<exists>m. messages s' = messages s @ [m]"
    by (auto simp: handleSendSteps_def Let_def appendMessage_def split: if_splits sum.splits)
  then show ?thesis
    by (auto simp: appendMessage_def)
qed

theorem C8_append_only_witness:
  "(typedChat, hd (handleSendSteps offline ''http://localhost:8070'' ''thread_1'' typedChat typedChat))
     \<in> set (zip (typedChat #
                   handleSendSteps offline ''http://localhost:8070'' ''thread_1'' typedChat typedChat)
                (handleSendSteps offline ''http://localhost:8070'' ''thread_1'' typedChat typedChat)) \<and>
   messages (hd (handleSendSteps offline ''http://localhost:8070'' ''thread_1'' typedChat typedChat))
     = appendMessage (userMessage typedChat) (messages typedChat) \<and>
   prefix (messages typedChat)
     (messages (hd (handleSendSteps offline ''http://localhost:8070'' ''thread_1'' typedChat typedChat)))"
proof -
  let ?steps = "handleSendSteps offline ''http://localhost:8070'' ''thread_1'' typedChat typedChat"
  have typed: "trim (input typedChat) \<noteq> []"
    by (simp add: typedChat_def trim_def isWhiteSpace_def)
  have idle: "\<not> isLoading typedChat"
    by (simp add: typedChat_def initialChat_def)
  from typed idle obtain sent answered where steps: "?steps = [sent, answered]"
    and sent: "messages sent = appendMessage (userMessage typedChat) (messages typedChat)"
    by (simp add: handleSendSteps_def Let_def)
  then have step: "(typedChat, hd ?steps) \<in> set (zip (typedChat # ?steps) ?steps)"
    by simp
  from C8_append_only [OF step] step sent steps show ?thesis
    by simp
qed

end
